theory Spec2Isabelle
  imports Complex_Main "HOL-Library.AList" "HOL-Library.Sublist" "HOL-Library.Log_Nat"
begin

section \<open>Strings and the character database\<close>

text \<open>
  A Python \<^verbatim>\<open>str\<close> is a sequence of Unicode code points; a code point is modelled as a
  natural number and a string as a list of them. \<open>ustr\<close> embeds an ASCII literal.
\<close>

type_synonym cp = nat
type_synonym ustring = "cp list"

definition ustr :: "string \<Rightarrow> ustring" where
  "ustr s = map of_char s"

text \<open>
  \<^verbatim>\<open>str.isspace\<close>, \<^verbatim>\<open>str.strip()\<close> and the regular expression class \<^verbatim>\<open>\s\<close> share one
  table of white space (CPython 3, Unicode 14): U+0009-000D, U+001C-0020, U+0085, U+00A0,
  U+1680, U+2000-200A, U+2028, U+2029, U+202F, U+205F, U+3000.
\<close>

definition py_isspace :: "cp \<Rightarrow> bool" where
  "py_isspace c \<longleftrightarrow>
     (9 \<le> c \<and> c \<le> 13) \<or> (28 \<le> c \<and> c \<le> 32) \<or> c = 133 \<or> c = 160 \<or> c = 5760 \<or>
     (8192 \<le> c \<and> c \<le> 8202) \<or> c = 8232 \<or> c = 8233 \<or> c = 8239 \<or> c = 8287 \<or> c = 12288"

text \<open>
  The two large tables of the interpreter's Unicode database that the program consults, the
  alphanumeric property (behind \<^verbatim>\<open>\w\<close>) and the lower-case mapping of \<^verbatim>\<open>str.lower()\<close>
  (which is context dependent and may change the length), are a parameter of the model.
  \<open>latin1_ucd\<close> is their restriction to the blocks Basic Latin and Latin-1 Supplement and
  to the CJK Unified Ideographs U+4E00-9FFF; it is used to evaluate the program on concrete
  inputs of these blocks and leaves every other code point unclassified and unchanged.
\<close>

record ucd =
  u_isalnum :: "cp \<Rightarrow> bool"
  u_lower :: "ustring \<Rightarrow> ustring"

definition latin1_isalnum :: "cp \<Rightarrow> bool" where
  "latin1_isalnum c \<longleftrightarrow>
     (48 \<le> c \<and> c \<le> 57) \<or> (65 \<le> c \<and> c \<le> 90) \<or> (97 \<le> c \<and> c \<le> 122) \<or>
     c = 170 \<or> c = 178 \<or> c = 179 \<or> c = 181 \<or> c = 185 \<or> c = 186 \<or>
     (188 \<le> c \<and> c \<le> 190) \<or> (192 \<le> c \<and> c \<le> 214) \<or> (216 \<le> c \<and> c \<le> 246) \<or>
     (248 \<le> c \<and> c \<le> 255) \<or> (19968 \<le> c \<and> c \<le> 40959)"

definition latin1_lower_char :: "cp \<Rightarrow> cp" where
  "latin1_lower_char c =
     (if (65 \<le> c \<and> c \<le> 90) \<or> (192 \<le> c \<and> c \<le> 214) \<or> (216 \<le> c \<and> c \<le> 222)
      then c + 32 else c)"

definition latin1_ucd :: ucd where
  "latin1_ucd = \<lparr> u_isalnum = latin1_isalnum, u_lower = map latin1_lower_char \<rparr>"

definition is_word :: "ucd \<Rightarrow> cp \<Rightarrow> bool" where
  \<comment> \<open>\<^verbatim>\<open>\w\<close> on a \<^verbatim>\<open>str\<close> pattern: alphanumeric or the underscore\<close>
  "is_word U c \<longleftrightarrow> u_isalnum U c \<or> c = 95"

definition is_cjk :: "cp \<Rightarrow> bool" where
  \<comment> \<open>the range U+4E00-9FFF of the pattern\<close>
  "is_cjk c \<longleftrightarrow> 19968 \<le> c \<and> c \<le> 40959"

definition strip :: "ustring \<Rightarrow> ustring" where
  "strip s = rev (dropWhile py_isspace (rev (dropWhile py_isspace s)))"

definition endswith :: "ustring \<Rightarrow> ustring \<Rightarrow> bool" where
  "endswith s suf \<longleftrightarrow> suffix suf s"

fun split_first :: "ustring \<Rightarrow> ustring \<Rightarrow> (ustring \<times> ustring) option" where
  "split_first sep [] = (if sep = [] then Some ([], []) else None)"
| "split_first sep (c # cs) =
     (if prefix sep (c # cs) then Some ([], drop (length sep) (c # cs))
      else map_option (\<lambda>(a, b). (c # a, b)) (split_first sep cs))"

text \<open>
  \<open>split_first sep s\<close> is \<^verbatim>\<open>s.split(sep, 1)\<close> when \<^verbatim>\<open>sep in s\<close> (the text before and after
  the leftmost occurrence) and \<open>None\<close> when \<^verbatim>\<open>sep\<close> does not occur.
\<close>

section \<open>Regular expressions\<close>

text \<open>
  The patterns of the program are written with matcher combinators. A matcher is run at a
  position of the subject, given by the character before it (\<open>None\<close> at the start) and the
  text that remains; it returns the positions at which a match can end, in the order in which
  the backtracking engine of \<^verbatim>\<open>re\<close> tries them. The first element of a sequence of matchers
  that succeeds to the end is the match that \<^verbatim>\<open>re\<close> reports.
\<close>

type_synonym mstate = "cp option \<times> ustring"
type_synonym matcher = "mstate \<Rightarrow> mstate list"

definition cls :: "(cp \<Rightarrow> bool) \<Rightarrow> matcher" where
  \<comment> \<open>one character of a class\<close>
  "cls P st = (case snd st of [] \<Rightarrow> [] | c # cs \<Rightarrow> if P c then [(Some c, cs)] else [])"

definition dot :: "cp \<Rightarrow> bool" where
  \<comment> \<open>\<^verbatim>\<open>.\<close> without DOTALL: any character but the newline\<close>
  "dot c \<longleftrightarrow> c \<noteq> 10"

definition seq :: "matcher \<Rightarrow> matcher \<Rightarrow> matcher" where
  "seq m1 m2 st = concat (map m2 (m1 st))"

definition opt :: "matcher \<Rightarrow> matcher" where
  \<comment> \<open>\<^verbatim>\<open>m?\<close>, greedy\<close>
  "opt m st = m st @ [st]"

fun lit :: "ustring \<Rightarrow> matcher" where
  "lit [] st = [st]"
| "lit (x # xs) (prev, []) = []"
| "lit (x # xs) (prev, c # cs) = (if c = x then lit xs (Some c, cs) else [])"

fun star_greedy :: "(cp \<Rightarrow> bool) \<Rightarrow> matcher" where
  "star_greedy P (prev, []) = [(prev, [])]"
| "star_greedy P (prev, c # cs) =
     (if P c then star_greedy P (Some c, cs) else []) @ [(prev, c # cs)]"

fun star_lazy :: "(cp \<Rightarrow> bool) \<Rightarrow> matcher" where
  "star_lazy P (prev, []) = [(prev, [])]"
| "star_lazy P (prev, c # cs) =
     (prev, c # cs) # (if P c then star_lazy P (Some c, cs) else [])"

definition plus_greedy :: "(cp \<Rightarrow> bool) \<Rightarrow> matcher" where
  "plus_greedy P st =
     (case snd st of [] \<Rightarrow> [] | c # cs \<Rightarrow> if P c then star_greedy P (Some c, cs) else [])"

definition plus_lazy :: "(cp \<Rightarrow> bool) \<Rightarrow> matcher" where
  "plus_lazy P st =
     (case snd st of [] \<Rightarrow> [] | c # cs \<Rightarrow> if P c then star_lazy P (Some c, cs) else [])"

definition wordb :: "ucd \<Rightarrow> matcher" where
  \<comment> \<open>\<^verbatim>\<open>\b\<close>: exactly one of the two neighbours is a word character\<close>
  "wordb U st =
     (let word_left = (case fst st of None \<Rightarrow> False | Some c \<Rightarrow> is_word U c);
          word_right = (case snd st of [] \<Rightarrow> False | c # cs \<Rightarrow> is_word U c)
      in if word_left \<noteq> word_right then [st] else [])"

definition bol :: matcher where
  \<comment> \<open>\<^verbatim>\<open>^\<close> without MULTILINE\<close>
  "bol st = (if fst st = None then [st] else [])"

definition eol :: matcher where
  \<comment> \<open>\<^verbatim>\<open>$\<close> without MULTILINE: the end, or just before a final newline\<close>
  "eol st = (if snd st = [] \<or> snd st = [10] then [st] else [])"

function re_sub :: "matcher \<Rightarrow> ustring \<Rightarrow> mstate \<Rightarrow> ustring" where
  "re_sub m repl (prev, []) = []"
| "re_sub m repl (prev, c # cs) =
     (case m (prev, c # cs) of
        [] \<Rightarrow> c # re_sub m repl (Some c, cs)
      | st # other \<Rightarrow>
          if length (snd st) < length (c # cs) then repl @ re_sub m repl st
          else c # re_sub m repl (Some c, cs))"
  by pat_completeness auto
termination
  by (relation "measure (\<lambda>(m, repl, st). length (snd st))") auto

text \<open>
  \<open>re_sub m repl (None, text)\<close> is \<^verbatim>\<open>re.sub(pattern, repl, text)\<close> for a pattern that matches no
  empty string, as all patterns of the program are: the subject is scanned from the left, a
  match is replaced and the scan goes on behind it, and a character at which nothing matches
  is copied.
\<close>

definition groups2 :: "matcher \<Rightarrow> matcher \<Rightarrow> matcher \<Rightarrow> matcher \<Rightarrow> ustring \<Rightarrow> (ustring \<times> ustring) list" where
  "groups2 g1 m g2 e text =
     concat (map (\<lambda>s1. concat (map (\<lambda>s2. concat (map (\<lambda>s3. map (\<lambda>s4.
        (take (length text - length (snd s1)) text,
         take (length (snd s2) - length (snd s3)) (snd s2))) (e s3)) (g2 s2))) (m s1))) (g1 (None, text)))"

definition re_match2 :: "matcher \<Rightarrow> ustring \<Rightarrow> (ustring \<times> ustring) option" where
  \<comment> \<open>\<^verbatim>\<open>re.match(r'^(.+?)\<close>\<open>m\<close>\<^verbatim>\<open>(.+)$', text)\<close>: the two groups of the first match\<close>
  "re_match2 m text =
     (case groups2 (seq bol (plus_lazy dot)) m (plus_greedy dot) eol text of
        [] \<Rightarrow> None | g # other \<Rightarrow> Some g)"

section \<open>deep\_clean\_text\<close>

definition bracket_re :: matcher where
  \<comment> \<open>\<^verbatim>\<open>[\(\[].*?[\)\]]\<close>\<close>
  "bracket_re =
     seq (cls (\<lambda>c. c = 40 \<or> c = 91)) (seq (star_lazy dot) (cls (\<lambda>c. c = 41 \<or> c = 93)))"

fun pattern_of :: "ustring \<Rightarrow> matcher" where
  "pattern_of [] = (\<lambda>st. [st])"
| "pattern_of (x # xs) = seq (if x = 46 then cls dot else cls (\<lambda>c. c = x)) (pattern_of xs)"

text \<open>
  The marker is interpolated into the pattern unescaped, so \<open>pattern_of\<close> reads it as a
  regular expression: a full stop in it is the wild card, every other character of the
  markers (lower-case letters) is a literal.
\<close>

definition marker_re :: "ucd \<Rightarrow> ustring \<Rightarrow> matcher" where
  \<comment> \<open>\<^verbatim>\<open>rf'\b{marker}\b'\<close>\<close>
  "marker_re U marker = seq (wordb U) (seq (pattern_of marker) (wordb U))"

definition version_markers :: "ustring list" where
  "version_markers =
     map ustr [''live'', ''ver.'', ''version'', ''remix'', ''acoustic'',
               ''instrumental'', ''demo'', ''edit'', ''mix'', ''feat.'', ''ft.'']"

definition remove_markers :: "ucd \<Rightarrow> ustring \<Rightarrow> ustring" where
  \<comment> \<open>the loop over \<^verbatim>\<open>version_markers\<close>\<close>
  "remove_markers U text =
     fold (\<lambda>marker text. re_sub (marker_re U marker) [] (None, text)) version_markers text"

definition special_re :: "ucd \<Rightarrow> matcher" where
  \<comment> \<open>the negated class of \<^verbatim>\<open>\w\<close>, the range U+4E00-9FFF and \<^verbatim>\<open>\s\<close>\<close>
  "special_re U = cls (\<lambda>c. \<not> (is_word U c \<or> is_cjk c \<or> py_isspace c))"

definition deep_clean_text :: "ucd \<Rightarrow> ustring \<Rightarrow> ustring" where
  "deep_clean_text U text =
     (if text = [] then []
      else
        let text = strip (u_lower U text);
            text = re_sub bracket_re [] (None, text);
            text = remove_markers U text;
            text = re_sub (special_re U) [32] (None, text);
            text = strip (re_sub (plus_greedy py_isspace) [32] (None, text))
        in text)"

section \<open>calculate\_similarity\<close>

text \<open>
  Python's \<^verbatim>\<open>float\<close> is IEEE 754 binary64. Every finite double is a rational number, so
  the values are modelled in \<^typ>\<open>rat\<close> and each arithmetic operation rounds its exact result
  to the nearest double, ties to even: \<open>float_round\<close>, with 53 significant bits and gradual
  underflow below \<open>2 powi (- 1022)\<close>. The program only produces values between 0 and 2,
  so overflow does not occur. The integer \<^verbatim>\<open>0\<close> that the program mixes with floats compares
  and adds as the double 0.
\<close>

definition round_half_even :: "rat \<Rightarrow> int" where
  "round_half_even y =
     (let n = \<lfloor>y\<rfloor>; r = y - of_int n
      in if r < 1 / 2 then n else if 1 / 2 < r then n + 1 else if even n then n else n + 1)"

definition binade :: "rat \<Rightarrow> int" where
  \<comment> \<open>for \<open>0 < x\<close>, the \<open>e\<close> with \<open>2 powi e \<le> x < 2 powi (e + 1)\<close>\<close>
  "binade x =
     (let (a, b) = quotient_of x;
          k = bitlen a - bitlen b
      in if 2 powi k \<le> x then k else k - 1)"

definition float_round :: "rat \<Rightarrow> rat" where
  "float_round x =
     (if x \<le> 0 then 0
      else let q = 2 powi (max (binade x - 52) (- 1074))
           in of_int (round_half_even (x / q)) * q)"

definition float_add :: "rat \<Rightarrow> rat \<Rightarrow> rat" where
  "float_add x y = float_round (x + y)"

definition float_sub :: "rat \<Rightarrow> rat \<Rightarrow> rat" where
  "float_sub x y = float_round (x - y)"

definition float_div :: "rat \<Rightarrow> rat \<Rightarrow> rat" where
  "float_div x y = float_round (x / y)"

definition int_truediv :: "nat \<Rightarrow> nat \<Rightarrow> rat" where
  \<comment> \<open>\<^verbatim>\<open>/\<close> on two integers: the correctly rounded quotient\<close>
  "int_truediv a b = float_round (of_nat a / of_nat b)"

fun inner_loop :: "'a \<Rightarrow> nat list \<Rightarrow> nat \<Rightarrow> 'a list \<Rightarrow> nat list \<Rightarrow> nat list" where
  "inner_loop c1 previous_row j [] current_row = current_row"
| "inner_loop c1 previous_row j (c2 # s2) current_row =
     (let insertions = previous_row ! (j + 1) + 1;
          deletions = current_row ! j + 1;
          substitutions = previous_row ! j + (if c1 \<noteq> c2 then 1 else 0)
      in inner_loop c1 previous_row (j + 1) s2
           (current_row @ [min insertions (min deletions substitutions)]))"

fun outer_loop :: "nat \<Rightarrow> 'a list \<Rightarrow> 'a list \<Rightarrow> nat list \<Rightarrow> nat list" where
  "outer_loop i [] s2 previous_row = previous_row"
| "outer_loop i (c1 # s1) s2 previous_row =
     outer_loop (i + 1) s1 s2 (inner_loop c1 previous_row 0 s2 [i + 1])"

definition levenshtein_rows :: "'a list \<Rightarrow> 'a list \<Rightarrow> nat" where
  \<comment> \<open>the body of \<^verbatim>\<open>levenshtein_distance\<close> behind the swap of the arguments\<close>
  "levenshtein_rows s1 s2 =
     (if length s2 = 0 then length s1
      else last (outer_loop 0 s1 s2 [0..<length s2 + 1]))"

definition levenshtein_distance :: "'a list \<Rightarrow> 'a list \<Rightarrow> nat" where
  "levenshtein_distance s1 s2 =
     (if length s1 < length s2 then levenshtein_rows s2 s1 else levenshtein_rows s1 s2)"

definition calculate_similarity :: "ustring \<Rightarrow> ustring \<Rightarrow> rat" where
  "calculate_similarity str1 str2 =
     (if str1 = [] \<or> str2 = [] then 0
      else if str1 = str2 then 1
      else
        let len1 = length str1; len2 = length str2; max_len = max len1 len2
        in if max_len = 0 then 1
           else
             let distance = levenshtein_distance str1 str2
             in float_sub 1 (int_truediv distance max_len))"

text \<open>
  The edit distance that the specification names: the least number of insertions, deletions
  and substitutions of single characters that turn one string into the other. \<open>edits n a b\<close>
  says that \<open>n\<close> such operations turn \<open>a\<close> into \<open>b\<close>; \<open>edit_distance\<close> is the
  usual recursion for the least such \<open>n\<close>.
\<close>

inductive edits :: "nat \<Rightarrow> 'a list \<Rightarrow> 'a list \<Rightarrow> bool" where
  edits_Nil: "edits 0 [] []"
| edits_delete: "edits n xs ys \<Longrightarrow> edits (Suc n) (x # xs) ys"
| edits_insert: "edits n xs ys \<Longrightarrow> edits (Suc n) xs (y # ys)"
| edits_keep: "edits n xs ys \<Longrightarrow> edits n (x # xs) (x # ys)"
| edits_substitute: "edits n xs ys \<Longrightarrow> edits (Suc n) (x # xs) (y # ys)"

fun edit_distance :: "'a list \<Rightarrow> 'a list \<Rightarrow> nat" where
  "edit_distance [] ys = length ys"
| "edit_distance (x # xs) [] = length (x # xs)"
| "edit_distance (x # xs) (y # ys) =
     min (edit_distance xs (y # ys) + 1)
       (min (edit_distance (x # xs) ys + 1)
            (edit_distance xs ys + (if x \<noteq> y then 1 else 0)))"

section \<open>The extractor\<close>

datatype exn = OSError | IndexError | TagError | UnboundLocalError

type_synonym tags = "ustring \<Rightarrow> ustring list option"
type_synonym interp = "ustring \<times> ustring \<times> ustring"

text \<open>
  The file system and the tag readers of \<^verbatim>\<open>mutagen\<close> are the environment of the program:
  \<open>dirs\<close> gives the names listed in each existing directory, \<open>isfile\<close> answers
  \<^verbatim>\<open>os.path.isfile\<close>, and \<open>EasyID3\<close> and \<open>FLAC\<close> open a file and return its tags (a
  dictionary from tag names to lists of values) or raise.
\<close>

record env =
  dirs :: "ustring \<Rightarrow> ustring list option"
  isfile :: "ustring \<Rightarrow> bool"
  EasyID3 :: "ustring \<Rightarrow> exn + tags"
  FLAC :: "ustring \<Rightarrow> exn + tags"

definition os_listdir :: "env \<Rightarrow> ustring \<Rightarrow> exn + ustring list" where
  \<comment> \<open>\<^verbatim>\<open>os.listdir\<close> raises an \<^verbatim>\<open>OSError\<close> for the empty path and for a path that is no directory\<close>
  "os_listdir E path =
     (if path = [] then Inl OSError
      else case dirs E path of None \<Rightarrow> Inl OSError | Some names \<Rightarrow> Inr names)"

definition os_path_join :: "ustring \<Rightarrow> ustring \<Rightarrow> ustring" where
  \<comment> \<open>\<^verbatim>\<open>posixpath.join\<close> of two components\<close>
  "os_path_join a b =
     (if b \<noteq> [] \<and> hd b = 47 then b
      else if a = [] \<or> last a = 47 then a @ b
      else a @ [47] @ b)"

fun rfind :: "cp \<Rightarrow> ustring \<Rightarrow> int" where
  "rfind x [] = - 1"
| "rfind x (c # cs) =
     (let r = rfind x cs in if 0 \<le> r then r + 1 else if c = x then 0 else - 1)"

definition os_path_splitext :: "ustring \<Rightarrow> ustring \<times> ustring" where
  \<comment> \<open>\<^verbatim>\<open>posixpath.splitext\<close>: split at the last full stop behind the last slash, unless only
      full stops precede it in the file name\<close>
  "os_path_splitext p =
     (let sepIndex = rfind 47 p; dotIndex = rfind 46 p
      in if sepIndex < dotIndex \<and>
            list_ex (\<lambda>c. c \<noteq> 46) (drop (nat (sepIndex + 1)) (take (nat dotIndex) p))
         then (take (nat dotIndex) p, drop (nat dotIndex) p)
         else (p, []))"

definition get_first :: "tags \<Rightarrow> ustring \<Rightarrow> exn + ustring option" where
  \<comment> \<open>\<^verbatim>\<open>audio.get(key, [None])[0]\<close>\<close>
  "get_first audio key =
     (case audio key of
        None \<Rightarrow> Inr None
      | Some [] \<Rightarrow> Inl IndexError
      | Some (v # other) \<Rightarrow> Inr (Some v))"

definition read_tags :: "tags \<Rightarrow> exn + (ustring option \<times> ustring option)" where
  "read_tags audio =
     (case get_first audio (ustr ''artist'') of
        Inl e \<Rightarrow> Inl e
      | Inr artist \<Rightarrow>
          (case get_first audio (ustr ''title'') of
             Inl e \<Rightarrow> Inl e
           | Inr title \<Rightarrow> Inr (artist, title)))"

definition metadata_strategy :: "ucd \<Rightarrow> env \<Rightarrow> ustring \<Rightarrow> interp list" where
  \<comment> \<open>strategy 1; any exception is swallowed by the bare \<^verbatim>\<open>except\<close>\<close>
  "metadata_strategy U E filepath =
     (let r =
        (if endswith (u_lower U filepath) (ustr ''.mp3'') then
           (case EasyID3 E filepath of Inl e \<Rightarrow> Inl e | Inr audio \<Rightarrow> read_tags audio)
         else if endswith (u_lower U filepath) (ustr ''.flac'') then
           (case FLAC E filepath of Inl e \<Rightarrow> Inl e | Inr audio \<Rightarrow> read_tags audio)
         else Inr (None, None))
      in case r of
           Inr (Some artist, Some title) \<Rightarrow>
             if artist \<noteq> [] \<and> title \<noteq> [] then [(ustr ''metadata'', artist, title)] else []
         | _ \<Rightarrow> [])"

definition separators :: "ustring list" where
  \<comment> \<open>\<^verbatim>\<open>' - '\<close>, with an em dash, with an en dash, \<^verbatim>\<open>'-'\<close>, \<^verbatim>\<open>'_'\<close>, \<^verbatim>\<open>'~'\<close>\<close>
  "separators = [[32, 45, 32], [32, 8212, 32], [32, 8211, 32], [45], [95], [126]]"

definition filename_strategy :: "ustring \<Rightarrow> ustring \<Rightarrow> interp list" where
  \<comment> \<open>strategy 2 for one separator\<close>
  "filename_strategy name_no_ext sep =
     (case split_first sep name_no_ext of
        None \<Rightarrow> []
      | Some (part0, part1) \<Rightarrow>
          let artist = strip part0; title = strip part1
          in if artist \<noteq> [] \<and> title \<noteq> [] then [(ustr ''filename'' @ sep, artist, title)]
             else [])"

definition filename_rev_strategy :: "ustring \<Rightarrow> ustring \<Rightarrow> interp list" where
  \<comment> \<open>strategy 3 for one separator\<close>
  "filename_rev_strategy name_no_ext sep =
     (case split_first sep name_no_ext of
        None \<Rightarrow> []
      | Some (part0, part1) \<Rightarrow>
          let title = strip part0; artist = strip part1
          in if artist \<noteq> [] \<and> title \<noteq> [] then
               (if length artist \<le> 15 then [(ustr ''filename_rev'' @ sep, artist, title)]
                else [])
             else [])"

definition sepc :: "cp \<Rightarrow> bool" where
  \<comment> \<open>\<^verbatim>\<open>[\s\-_]\<close>\<close>
  "sepc c \<longleftrightarrow> py_isspace c \<or> c = 45 \<or> c = 95"

definition regex_strategy :: "ustring \<Rightarrow> matcher \<times> string \<Rightarrow> interp list" where
  \<comment> \<open>strategy 4 for one pattern\<close>
  "regex_strategy name_no_ext p =
     (case re_match2 (fst p) name_no_ext of
        None \<Rightarrow> []
      | Some (g1, g2) \<Rightarrow>
          let (artist, title) = (if snd p = ''title-artist'' then (g2, g1) else (g1, g2))
          in if artist \<noteq> [] \<and> title \<noteq> [] then
               [(ustr ''regex_'' @ ustr (snd p), strip artist, strip title)]
             else [])"

definition patterns :: "(matcher \<times> string) list" where
  "patterns =
     [(plus_greedy sepc, ''artist-title''),
      (seq (plus_greedy sepc) (seq (lit (ustr ''by'')) (plus_greedy sepc)), ''title-artist''),
      (seq (plus_greedy sepc)
         (seq (lit (ustr ''ft'')) (seq (opt (cls (\<lambda>c. c = 46))) (plus_greedy sepc))),
       ''artist-feat'')]"

definition raw_strategies :: "ucd \<Rightarrow> env \<Rightarrow> ustring \<Rightarrow> ustring \<Rightarrow> interp list" where
  \<comment> \<open>the list \<^verbatim>\<open>strategies\<close> before the cleaning loop\<close>
  "raw_strategies U E filepath filename =
     (let name_no_ext = fst (os_path_splitext filename)
      in metadata_strategy U E filepath
         @ concat (map (filename_strategy name_no_ext) separators)
         @ (if split_first [32, 45, 32] name_no_ext \<noteq> None \<or> split_first [45] name_no_ext \<noteq> None
            then concat (map (filename_rev_strategy name_no_ext) [[32, 45, 32], [45]])
            else [])
         @ concat (map (regex_strategy name_no_ext) patterns))"

definition clean_strategy :: "ucd \<Rightarrow> interp \<Rightarrow> interp list" where
  \<comment> \<open>the body of the cleaning loop\<close>
  "clean_strategy U s =
     (case s of (strategy_name, artist, title) \<Rightarrow>
        let clean_artist = deep_clean_text U artist;
            clean_title = deep_clean_text U title
        in if clean_artist \<noteq> [] \<and> clean_title \<noteq> []
           then [(strategy_name, clean_artist, clean_title)] else [])"

definition extract_artist_title_comprehensive ::
    "ucd \<Rightarrow> env \<Rightarrow> ustring \<Rightarrow> ustring \<Rightarrow> interp list" where
  "extract_artist_title_comprehensive U E filepath filename =
     concat (map (clean_strategy U) (raw_strategies U E filepath filename))"

section \<open>build\_smart\_index\<close>

text \<open>
  A \<^verbatim>\<open>dict\<close> is an association list in insertion order: \<open>map_of\<close> looks a key up and
  \<open>AList.update\<close> stores a value, in place for a key that is present and at the end for a
  new one. The counters and the printed report of \<^verbatim>\<open>build_smart_index\<close> do not reach its
  result and are left out.
\<close>

type_synonym file_index = "(ustring \<times> interp list) list"
type_synonym key = "ustring \<times> ustring"
type_synonym reverse_index = "(key \<times> ustring list) list"

fun index_files :: "ucd \<Rightarrow> env \<Rightarrow> ustring \<Rightarrow> ustring list \<Rightarrow> file_index \<Rightarrow> file_index" where
  "index_files U E folder_path [] file_index = file_index"
| "index_files U E folder_path (filename # rest) file_index =
     (let filepath = os_path_join folder_path filename
      in if \<not> isfile E filepath then index_files U E folder_path rest file_index
         else if \<not> (endswith (u_lower U filename) (ustr ''.mp3'') \<or>
                     endswith (u_lower U filename) (ustr ''.flac''))
         then index_files U E folder_path rest file_index
         else
           let strategies = extract_artist_title_comprehensive U E filepath filename
           in if strategies \<noteq> []
              then index_files U E folder_path rest (AList.update filename strategies file_index)
              else index_files U E folder_path rest file_index)"

definition append_file :: "ustring \<Rightarrow> interp \<Rightarrow> reverse_index \<Rightarrow> reverse_index" where
  \<comment> \<open>\<^verbatim>\<open>reverse_index[key].append(filename)\<close> on a \<^verbatim>\<open>defaultdict(list)\<close>\<close>
  "append_file filename s reverse_index =
     (case s of (strategy, artist, title) \<Rightarrow>
        let key = (artist, title)
        in AList.update key
             ((case map_of reverse_index key of None \<Rightarrow> [] | Some files \<Rightarrow> files) @ [filename])
             reverse_index)"

fun build_reverse :: "file_index \<Rightarrow> reverse_index \<Rightarrow> reverse_index" where
  "build_reverse [] reverse_index = reverse_index"
| "build_reverse ((filename, strategies) # rest) reverse_index =
     build_reverse rest (fold (append_file filename) strategies reverse_index)"

definition build_smart_index :: "ucd \<Rightarrow> env \<Rightarrow> ustring \<Rightarrow> exn + (file_index \<times> reverse_index)" where
  "build_smart_index U E folder_path =
     (case os_listdir E folder_path of
        Inl e \<Rightarrow> Inl e
      | Inr names \<Rightarrow>
          let file_index = index_files U E folder_path names []
          in Inr (file_index, build_reverse file_index []))"

section \<open>find\_unique\_with\_cross\_check\<close>

text \<open>
  A match detail is the tuple the program appends: the candidate file, the kind of match, and
  the two descriptions. The label of a fuzzy match is a text formatted from the similarity;
  the model keeps the similarity itself.
\<close>

datatype match_type = ExactMatch | FuzzyMatch rat

type_synonym match_detail = "ustring \<times> match_type \<times> ustring \<times> ustring"
type_synonym best = "(ustring \<times> ustring \<times> rat) option \<times> rat"

datatype scan = Break match_detail | Completed best

datatype file_result = Matched match_detail | Unique

definition gate :: rat where
  \<comment> \<open>the literal \<^verbatim>\<open>0.8\<close>\<close>
  "gate = float_round (4 / 5)"

definition accept :: rat where
  \<comment> \<open>the literal \<^verbatim>\<open>0.85\<close>\<close>
  "accept = float_round (17 / 20)"

definition overall :: "key \<Rightarrow> key \<Rightarrow> rat" where
  \<comment> \<open>\<^verbatim>\<open>(artist_sim + title_sim) / 2\<close> of a reference key and a candidate key\<close>
  "overall key1 key2 =
     float_div
       (float_add (calculate_similarity (fst key1) (fst key2))
                  (calculate_similarity (snd key1) (snd key2)))
       2"

fun scan_keys :: "key list \<Rightarrow> ustring \<Rightarrow> ustring \<Rightarrow> best \<Rightarrow> best" where
  "scan_keys [] artist2 title2 b = b"
| "scan_keys (key1 # keys) artist2 title2 b =
     (case key1 of (artist1, title1) \<Rightarrow>
        let artist_sim = calculate_similarity artist1 artist2
        in if gate < artist_sim then
             let title_sim = calculate_similarity title1 title2;
                 overall_sim = float_div (float_add artist_sim title_sim) 2
             in if snd b < overall_sim
                then scan_keys keys artist2 title2 (Some (artist1, title1, overall_sim), overall_sim)
                else scan_keys keys artist2 title2 b
           else scan_keys keys artist2 title2 b)"

fun scan_strategies :: "reverse_index \<Rightarrow> ustring \<Rightarrow> interp list \<Rightarrow> best \<Rightarrow> exn + scan" where
  "scan_strategies reverse1 filename2 [] b = Inr (Completed b)"
| "scan_strategies reverse1 filename2 (s # rest) b =
     (case s of (strategy2, artist2, title2) \<Rightarrow>
        (case map_of reverse1 (artist2, title2) of
           Some matched_files \<Rightarrow>
             (case matched_files of
                [] \<Rightarrow> Inl IndexError
              | f # other \<Rightarrow> Inr (Break (filename2, ExactMatch, strategy2, f)))
         | None \<Rightarrow>
             scan_strategies reverse1 filename2 rest
               (scan_keys (map fst reverse1) artist2 title2 b)))"

definition match_file :: "reverse_index \<Rightarrow> ustring \<times> interp list \<Rightarrow> exn + file_result" where
  \<comment> \<open>the body of the loop over \<^verbatim>\<open>index2.items()\<close>\<close>
  "match_file reverse1 entry =
     (case entry of (filename2, strategies2) \<Rightarrow>
        (case scan_strategies reverse1 filename2 strategies2 (None, 0) of
           Inl e \<Rightarrow> Inl e
         | Inr (Break d) \<Rightarrow> Inr (Matched d)
         | Inr (Completed (best_match, best_similarity)) \<Rightarrow>
             (case best_match of
                None \<Rightarrow> Inr Unique
              | Some (artist1, title1, similarity) \<Rightarrow>
                  if accept < best_similarity then
                    (case rev strategies2 of
                       [] \<Rightarrow> Inl UnboundLocalError
                     | (strategy2, artist2, title2) # other \<Rightarrow>
                         Inr (Matched (filename2, FuzzyMatch similarity,
                                artist2 @ [45] @ title2, artist1 @ [45] @ title1)))
                  else Inr Unique)))"

fun cross_match ::
    "file_index \<Rightarrow> reverse_index \<Rightarrow> ustring list \<times> match_detail list
      \<Rightarrow> exn + (ustring list \<times> match_detail list)" where
  "cross_match [] reverse1 acc = Inr acc"
| "cross_match (entry # rest) reverse1 acc =
     (case match_file reverse1 entry of
        Inl e \<Rightarrow> Inl e
      | Inr (Matched d) \<Rightarrow> cross_match rest reverse1 (fst acc, snd acc @ [d])
      | Inr Unique \<Rightarrow> cross_match rest reverse1 (fst acc @ [fst entry], snd acc))"

definition find_unique_with_cross_check ::
    "ucd \<Rightarrow> env \<Rightarrow> ustring \<Rightarrow> ustring
      \<Rightarrow> exn + (ustring list \<times> match_detail list \<times> nat \<times> nat)" where
  "find_unique_with_cross_check U E folder1 folder2 =
     (case build_smart_index U E folder1 of
        Inl e \<Rightarrow> Inl e
      | Inr (index1, reverse1) \<Rightarrow>
          (case build_smart_index U E folder2 of
             Inl e \<Rightarrow> Inl e
           | Inr (index2, reverse2) \<Rightarrow>
               (case cross_match index2 reverse1 ([], []) of
                  Inl e \<Rightarrow> Inl e
                | Inr (unique_songs, match_details) \<Rightarrow>
                    Inr (unique_songs, match_details, length index1, length index2))))"

section \<open>Notions used in the statements\<close>

definition unique_entries :: "reverse_index \<Rightarrow> file_index \<Rightarrow> file_index" where
  "unique_entries r idx = filter (\<lambda>e. match_file r e = Inr Unique) idx"

definition matched_entries :: "reverse_index \<Rightarrow> file_index \<Rightarrow> file_index" where
  "matched_entries r idx =
     filter (\<lambda>e. case match_file r e of Inr (Matched d) \<Rightarrow> True | _ \<Rightarrow> False) idx"

definition detail_of :: "reverse_index \<Rightarrow> ustring \<times> interp list \<Rightarrow> match_detail" where
  "detail_of r e = (case match_file r e of Inr (Matched d) \<Rightarrow> d)"

definition nonempty_buckets :: "reverse_index \<Rightarrow> bool" where
  \<comment> \<open>every key of the reverse index has at least one file, as \<open>build_reverse\<close> ensures\<close>
  "nonempty_buckets r \<longleftrightarrow> list_all (\<lambda>kv. snd kv \<noteq> []) r"

definition bucket :: "reverse_index \<Rightarrow> key \<Rightarrow> ustring list" where
  \<comment> \<open>the list read by \<^verbatim>\<open>reverse_index[key]\<close> on the \<^verbatim>\<open>defaultdict\<close>\<close>
  "bucket r k = (case map_of r k of None \<Rightarrow> [] | Some files \<Rightarrow> files)"

definition files_with_key :: "file_index \<Rightarrow> key \<Rightarrow> ustring list" where
  \<comment> \<open>the files that carry the key, in the order of the file index, once per interpretation\<close>
  "files_with_key idx k =
     concat (map (\<lambda>e. map (\<lambda>s. fst e) (filter (\<lambda>s. snd s = k) (snd e))) idx)"

definition key_overalls :: "key list \<Rightarrow> key \<Rightarrow> rat list" where
  \<comment> \<open>the overall similarities of one candidate key with the reference keys that pass the gate\<close>
  "key_overalls keys key2 =
     map (\<lambda>key1. overall key1 key2)
       (filter (\<lambda>key1. gate < calculate_similarity (fst key1) (fst key2)) keys)"

definition gated_overalls :: "reverse_index \<Rightarrow> interp list \<Rightarrow> rat list" where
  \<comment> \<open>the overall similarities of all pairs of an interpretation and a reference key whose
      artist similarity is above the gate\<close>
  "gated_overalls reverse1 strategies2 =
     concat (map (\<lambda>s. map (\<lambda>key1. overall key1 (snd s))
                         (filter (\<lambda>key1. gate < calculate_similarity (fst key1) (fst (snd s)))
                                 (map fst reverse1)))
                 strategies2)"

definition improves :: "best \<Rightarrow> best \<Rightarrow> bool" where
  \<comment> \<open>the pair \<^verbatim>\<open>(best_match, best_similarity)\<close> is unchanged or was raised\<close>
  "improves b b' \<longleftrightarrow> b' = b \<or> (snd b < snd b' \<and> (\<exists>a t. fst b' = Some (a, t, snd b')))"

definition example_index1 :: file_index where
  "example_index1 =
     [(ustr ''Adele - Hello.flac'', [(ustr ''filename - '', ustr ''adele'', ustr ''hello'')]),
      (ustr ''hello.flac'', [(ustr ''metadata'', ustr ''adele'', ustr ''hello'')]),
      (ustr ''abcdefghij - abcdefghij.flac'',
         [(ustr ''filename - '', ustr ''abcdefghij'', ustr ''abcdefghij'')])]"

text \<open>
  A small reference collection and candidate collection on which the statements are
  evaluated; \<open>example_reverse1\<close> is the reverse index of \<open>example_index1\<close>.
\<close>

definition example_reverse1 :: reverse_index where
  "example_reverse1 =
     [((ustr ''adele'', ustr ''hello''), [ustr ''Adele - Hello.flac'', ustr ''hello.flac'']),
      ((ustr ''abcdefghij'', ustr ''abcdefghij''), [ustr ''abcdefghij - abcdefghij.flac''])]"

definition example_index2 :: file_index where
  "example_index2 =
     [(ustr ''Hello_Adele (Remix).mp3'',
         [(ustr ''filename_'', ustr ''hello'', ustr ''adele''),
          (ustr ''regex_title-artist'', ustr ''adele'', ustr ''hello'')]),
      (ustr ''abcdefghij - abcdefgxyz.mp3'',
         [(ustr ''filename - '', ustr ''abcdefghij'', ustr ''abcdefgxyz'')]),
      (ustr ''abcdefghij - abcdefghxy.mp3'',
         [(ustr ''filename - '', ustr ''abcdefghij'', ustr ''abcdefghxy'')]),
      (ustr ''abcdefghxy - abcdefghij.mp3'',
         [(ustr ''filename - '', ustr ''abcdefghxy'', ustr ''abcdefghij'')])]"

section \<open>The matching loop\<close>

lemma scan_strategies_Break_fst:
  "scan_strategies r f ss b = Inr (Break d) \<Longrightarrow> fst d = f"
  by (induction r f ss b rule: scan_strategies.induct) (auto split: option.splits list.splits)

lemma match_file_fst:
  "match_file r e = Inr (Matched d) \<Longrightarrow> fst d = fst e"
  by (auto simp: match_file_def split: prod.splits sum.splits scan.splits option.splits
        if_splits list.splits dest: scan_strategies_Break_fst)

lemma cross_match_result:
  "cross_match idx r acc = Inr res \<Longrightarrow>
     fst res = fst acc @ map fst (unique_entries r idx) \<and>
     snd res = snd acc @ map (detail_of r) (matched_entries r idx) \<and>
     (\<forall>e\<in>set idx. \<exists>x. match_file r e = Inr x)"
proof (induction idx arbitrary: acc)
  case Nil
  then show ?case by (simp add: unique_entries_def matched_entries_def)
next
  case (Cons e idx)
  show ?case
  proof (cases "match_file r e")
    case (Inl x)
    with Cons.prems show ?thesis by simp
  next
    case (Inr x)
    show ?thesis
    proof (cases x)
      case (Matched d)
      with Inr Cons.prems have "cross_match idx r (fst acc, snd acc @ [d]) = Inr res" by simp
      from Cons.IH[OF this] Inr Matched show ?thesis
        by (auto simp add: unique_entries_def matched_entries_def detail_of_def)
    next
      case Unique
      with Inr Cons.prems have "cross_match idx r (fst acc @ [fst e], snd acc) = Inr res" by simp
      from Cons.IH[OF this] Inr Unique show ?thesis
        by (simp add: unique_entries_def matched_entries_def detail_of_def)
    qed
  qed
qed

lemma cross_match_total:
  "\<forall>e\<in>set idx. \<exists>x. match_file r e = Inr x \<Longrightarrow> \<exists>res. cross_match idx r acc = Inr res"
proof (induction idx arbitrary: acc)
  case Nil
  then show ?case by simp
next
  case (Cons e idx)
  then obtain x where x: "match_file r e = Inr x" by auto
  from Cons show ?case using x by (cases x) auto
qed

lemma map_fst_detail_of:
  "map fst (map (detail_of r) (matched_entries r idx)) = map fst (matched_entries r idx)"
proof -
  have "fst (detail_of r e) = fst e"
    if "case match_file r e of Inr (Matched d) \<Rightarrow> True | _ \<Rightarrow> False" for e
    using that match_file_fst[of r e]
    by (auto simp: detail_of_def split: sum.splits file_result.splits)
  then show ?thesis by (simp add: matched_entries_def)
qed

lemma partition_entries:
  assumes "\<forall>e\<in>set idx. \<exists>x. match_file r e = Inr x"
  shows "length (unique_entries r idx) + length (matched_entries r idx) = length idx"
    and "set (unique_entries r idx) \<union> set (matched_entries r idx) = set idx"
    and "set (unique_entries r idx) \<inter> set (matched_entries r idx) = {}"
proof -
  have eq: "matched_entries r idx = filter (\<lambda>e. \<not> match_file r e = Inr Unique) idx"
    unfolding matched_entries_def
  proof (rule filter_cong[OF refl])
    fix e assume "e \<in> set idx"
    with assms obtain x where "match_file r e = Inr x" by auto
    then show "(case match_file r e of Inr (Matched d) \<Rightarrow> True | _ \<Rightarrow> False)
                = (\<not> match_file r e = Inr Unique)"
      by (cases x) auto
  qed
  show "length (unique_entries r idx) + length (matched_entries r idx) = length idx"
    unfolding eq unique_entries_def by (rule sum_length_filter_compl)
  show "set (unique_entries r idx) \<union> set (matched_entries r idx) = set idx"
    unfolding eq unique_entries_def by auto
  show "set (unique_entries r idx) \<inter> set (matched_entries r idx) = {}"
    unfolding eq unique_entries_def by auto
qed

lemma cross_match_partition_aux:
  assumes "cross_match index2 reverse1 ([], []) = Inr (unique_songs, match_details)"
      and "distinct (map fst index2)"
  shows "length unique_songs + length match_details = length index2 \<and>
         distinct (unique_songs @ map fst match_details) \<and>
         set unique_songs \<union> fst ` set match_details = fst ` set index2"
proof -
  from cross_match_result[OF assms(1)]
  have u: "unique_songs = map fst (unique_entries reverse1 index2)"
    and d: "match_details = map (detail_of reverse1) (matched_entries reverse1 index2)"
    and t: "\<forall>e\<in>set index2. \<exists>x. match_file reverse1 e = Inr x"
    by simp_all
  note p = partition_entries[OF t]
  have md: "map fst match_details = map fst (matched_entries reverse1 index2)"
    unfolding d by (rule map_fst_detail_of)
  have inj: "inj_on fst (set index2)"
    using assms(2) by (simp add: distinct_map)
  have len: "length unique_songs + length match_details = length index2"
    using p(1) by (simp add: u d)
  have du: "distinct (map fst (unique_entries reverse1 index2))"
    unfolding unique_entries_def using assms(2) by (rule distinct_map_filter)
  have dm: "distinct (map fst (matched_entries reverse1 index2))"
    unfolding matched_entries_def using assms(2) by (rule distinct_map_filter)
  have disj: "fst ` set (unique_entries reverse1 index2)
                \<inter> fst ` set (matched_entries reverse1 index2) = {}"
  proof -
    have "fst ` set (unique_entries reverse1 index2) \<inter> fst ` set (matched_entries reverse1 index2)
          = fst ` (set (unique_entries reverse1 index2) \<inter> set (matched_entries reverse1 index2))"
      using p(2) by (intro inj_on_image_Int[OF inj, symmetric]) auto
    then show ?thesis using p(3) by simp
  qed
  have dist: "distinct (unique_songs @ map fst match_details)"
    using du dm disj by (simp add: u md)
  have "set unique_songs \<union> fst ` set match_details
        = fst ` (set (unique_entries reverse1 index2) \<union> set (matched_entries reverse1 index2))"
    using md by (simp add: u image_Un) (metis list.set_map)
  then have cover: "set unique_songs \<union> fst ` set match_details = fst ` set index2"
    using p(2) by simp
  from len dist cover show ?thesis by simp
qed

lemma scan_strategies_no_IndexError:
  "nonempty_buckets r \<Longrightarrow> \<exists>x. scan_strategies r f ss b = Inr x"
proof (induction r f ss b rule: scan_strategies.induct)
  case (1 reverse1 filename2 b)
  then show ?case by simp
next
  case (2 reverse1 filename2 s rest b)
  obtain strategy2 artist2 title2 where s: "s = (strategy2, artist2, title2)"
    by (cases s) auto
  show ?case
  proof (cases "map_of reverse1 (artist2, title2)")
    case None
    with 2 s show ?thesis by simp
  next
    case (Some matched_files)
    then have "((artist2, title2), matched_files) \<in> set reverse1"
      by (rule map_of_SomeD)
    with "2.prems" have "matched_files \<noteq> []"
      by (auto simp: nonempty_buckets_def list_all_iff)
    with Some s show ?thesis by (cases matched_files) auto
  qed
qed

lemma match_file_total:
  assumes "nonempty_buckets r"
  shows "\<exists>x. match_file r e = Inr x"
proof -
  obtain f ss where e: "e = (f, ss)" by (cases e) auto
  from scan_strategies_no_IndexError[OF assms]
  obtain x where x: "scan_strategies r f ss (None, 0) = Inr x" by blast
  show ?thesis
  proof (cases ss)
    case Nil
    then show ?thesis by (simp add: e match_file_def)
  next
    case (Cons s rest)
    then have "rev ss \<noteq> []" by simp
    then obtain t ts where "rev ss = t # ts" by (cases "rev ss") auto
    with x show ?thesis
      by (cases x) (auto simp: e match_file_def split: option.splits prod.splits)
  qed
qed

lemma cross_match_returns:
  assumes "nonempty_buckets reverse1"
  shows "\<exists>unique_songs match_details.
           cross_match index2 reverse1 ([], []) = Inr (unique_songs, match_details)"
proof -
  from match_file_total[OF assms]
  have "\<forall>e\<in>set index2. \<exists>x. match_file reverse1 e = Inr x" by blast
  from cross_match_total[OF this]
  obtain res where "cross_match index2 reverse1 ([], []) = Inr res" by blast
  then have "cross_match index2 reverse1 ([], []) = Inr (fst res, snd res)" by simp
  then show ?thesis by blast
qed

text \<open>
  C10. \<open>cross_match\<close> partitions the candidate index: with a reference index whose buckets are
  non-empty (as every index built by \<open>build_smart_index\<close> is) the loop returns, every file of
  the candidate index is in exactly one of the list of unique songs and the list of match
  details, a matched file has exactly one detail, and the two lengths add up to the number of
  files of the candidate index.
\<close>

theorem cross_match_partition:
  assumes "distinct (map fst index2)" and "nonempty_buckets reverse1"
  shows "\<exists>unique_songs match_details.
           cross_match index2 reverse1 ([], []) = Inr (unique_songs, match_details) \<and>
           length unique_songs + length match_details = length index2 \<and>
           distinct (unique_songs @ map fst match_details) \<and>
           set unique_songs \<union> fst ` set match_details = fst ` set index2"
proof -
  from cross_match_returns[OF assms(2)]
  obtain u d where r: "cross_match index2 reverse1 ([], []) = Inr (u, d)" by blast
  from cross_match_partition_aux[OF r assms(1)] r show ?thesis by blast
qed

theorem cross_match_partition_witness:
  "distinct (map fst example_index2) \<and> nonempty_buckets example_reverse1 \<and>
   (\<exists>unique_songs match_details.
      cross_match example_index2 example_reverse1 ([], []) = Inr (unique_songs, match_details) \<and>
      length unique_songs + length match_details = 4 \<and>
      distinct (unique_songs @ map fst match_details) \<and>
      set unique_songs \<union> fst ` set match_details = fst ` set example_index2)"
proof -
  have d: "distinct (map fst example_index2)"
    by (simp add: example_index2_def ustr_def)
  have n: "nonempty_buckets example_reverse1"
    by (simp add: example_reverse1_def nonempty_buckets_def)
  have l: "length example_index2 = 4"
    by (simp add: example_index2_def)
  from cross_match_partition[OF d n] d n l show ?thesis by simp
qed

lemma cross_match_member:
  assumes "cross_match idx r ([], []) = Inr (u, d)" and "distinct (map fst idx)" and "e \<in> set idx"
  shows "match_file r e = Inr (Matched m) \<Longrightarrow>
           m \<in> set d \<and> fst e \<notin> set u \<and> (\<forall>x\<in>set d. fst x = fst e \<longrightarrow> x = m)"
    and "match_file r e = Inr Unique \<Longrightarrow> fst e \<in> set u \<and> (\<forall>x\<in>set d. fst x \<noteq> fst e)"
proof -
  from cross_match_result[OF assms(1)]
  have u: "u = map fst (unique_entries r idx)"
    and d: "d = map (detail_of r) (matched_entries r idx)"
    by simp_all
  have inj: "inj_on fst (set idx)"
    using assms(2) by (simp add: distinct_map)
  have same: "e' = e" if "e' \<in> set idx" "fst e' = fst e" for e'
    using inj that assms(3) by (auto dest: inj_onD)
  {
    assume m: "match_file r e = Inr (Matched m)"
    have 1: "m \<in> set d"
      using m assms(3) by (force simp: d matched_entries_def detail_of_def)
    have 2: "fst e \<notin> set u"
    proof
      assume "fst e \<in> set u"
      then obtain e' where e': "e' \<in> set idx" "match_file r e' = Inr Unique" "fst e' = fst e"
        by (auto simp: u unique_entries_def)
      from same[OF e'(1) e'(3)] have "e' = e" .
      with e'(2) m show False by simp
    qed
    have 3: "\<forall>x\<in>set d. fst x = fst e \<longrightarrow> x = m"
    proof (intro ballI impI)
      fix x assume "x \<in> set d" "fst x = fst e"
      then obtain e' where e': "e' \<in> set idx" "x = detail_of r e'"
        "case match_file r e' of Inr (Matched d) \<Rightarrow> True | _ \<Rightarrow> False"
        by (auto simp: d matched_entries_def)
      then obtain m' where m': "match_file r e' = Inr (Matched m')"
        by (auto split: sum.splits file_result.splits)
      with e' have "x = m'" by (simp add: detail_of_def)
      with match_file_fst[OF m'] \<open>fst x = fst e\<close> have "fst e' = fst e" by simp
      with same e'(1) have "e' = e" by blast
      with m m' \<open>x = m'\<close> show "x = m" by simp
    qed
    from 1 2 3 show "m \<in> set d \<and> fst e \<notin> set u \<and> (\<forall>x\<in>set d. fst x = fst e \<longrightarrow> x = m)"
      by blast
  }
  {
    assume n: "match_file r e = Inr Unique"
    have 1: "fst e \<in> set u"
      using n assms(3) by (force simp: u unique_entries_def)
    have 2: "\<forall>x\<in>set d. fst x \<noteq> fst e"
    proof (intro ballI notI)
      fix x assume "x \<in> set d" "fst x = fst e"
      then obtain e' where e': "e' \<in> set idx" "x = detail_of r e'"
        "case match_file r e' of Inr (Matched d) \<Rightarrow> True | _ \<Rightarrow> False"
        by (auto simp: d matched_entries_def)
      then obtain m' where m': "match_file r e' = Inr (Matched m')"
        by (auto split: sum.splits file_result.splits)
      with e' have "x = m'" by (simp add: detail_of_def)
      with match_file_fst[OF m'] \<open>fst x = fst e\<close> have "fst e' = fst e" by simp
      with same e'(1) have "e' = e" by blast
      with n m' show False by simp
    qed
    from 1 2 show "fst e \<in> set u \<and> (\<forall>x\<in>set d. fst x \<noteq> fst e)" by blast
  }
qed

subsection \<open>The reverse index\<close>

lemma bucket_append_file:
  "bucket (append_file f s r) k = bucket r k @ (if snd s = k then [f] else [])"
  by (cases s) (auto simp: bucket_def append_file_def Let_def update_conv' split: option.splits)

lemma map_of_append_file_None:
  "map_of (append_file f s r) k = None \<longleftrightarrow> map_of r k = None \<and> snd s \<noteq> k"
  by (cases s) (auto simp: append_file_def Let_def update_conv' split: option.splits)

lemma map_of_fold_append_file:
  "map_of (fold (append_file f) ss r) k = None \<longleftrightarrow>
     map_of r k = None \<and> k \<notin> snd ` set ss"
  by (induction ss arbitrary: r) (auto simp: map_of_append_file_None)

lemma bucket_fold_append_file:
  "bucket (fold (append_file f) ss r) k = bucket r k @ map (\<lambda>s. f) (filter (\<lambda>s. snd s = k) ss)"
  by (induction ss arbitrary: r) (auto simp: bucket_append_file)

lemma bucket_build_reverse:
  "bucket (build_reverse idx r) k = bucket r k @ files_with_key idx k"
  by (induction idx r rule: build_reverse.induct)
     (auto simp: files_with_key_def bucket_fold_append_file)

lemma map_of_build_reverse_None:
  "map_of (build_reverse idx r) k = None \<longleftrightarrow>
     map_of r k = None \<and> (\<forall>e\<in>set idx. k \<notin> snd ` set (snd e))"
  by (induction idx r rule: build_reverse.induct) (auto simp: map_of_fold_append_file)

lemma nonempty_buckets_iff:
  "nonempty_buckets r \<longleftrightarrow> (\<forall>kv\<in>set r. snd kv \<noteq> [])"
  by (simp add: nonempty_buckets_def list_all_iff)

lemma nonempty_buckets_update:
  "nonempty_buckets r \<Longrightarrow> v \<noteq> [] \<Longrightarrow> nonempty_buckets (AList.update k v r)"
  by (induction r) (auto simp: nonempty_buckets_def)

lemma nonempty_buckets_append_file:
  "nonempty_buckets r \<Longrightarrow> nonempty_buckets (append_file f s r)"
  by (cases s) (auto simp: append_file_def Let_def intro: nonempty_buckets_update)

lemma nonempty_buckets_fold:
  "nonempty_buckets r \<Longrightarrow> nonempty_buckets (fold (append_file f) ss r)"
  by (induction ss arbitrary: r) (auto intro: nonempty_buckets_append_file)

lemma nonempty_buckets_build_reverse:
  "nonempty_buckets r \<Longrightarrow> nonempty_buckets (build_reverse idx r)"
  by (induction idx r rule: build_reverse.induct) (auto intro: nonempty_buckets_fold)

lemma map_of_build_reverse:
  "map_of (build_reverse idx []) k = Some files \<Longrightarrow> files = files_with_key idx k"
  using bucket_build_reverse[of idx "[]" k] by (simp add: bucket_def)

lemma example_reverse1_built: "build_reverse example_index1 [] = example_reverse1"
  by (simp add: example_index1_def example_reverse1_def append_file_def ustr_def)

subsection \<open>Exact matches\<close>

lemma scan_strategies_exact:
  assumes "find (\<lambda>s. map_of r (snd s) \<noteq> None) ss = Some (strategy2, key2)"
      and "map_of r key2 = Some (f # other)"
  shows "scan_strategies r filename2 ss b = Inr (Break (filename2, ExactMatch, strategy2, f))"
  using assms
proof (induction r filename2 ss b rule: scan_strategies.induct)
  case (1 reverse1 filename2 b)
  then show ?case by simp
next
  case (2 reverse1 filename2 s rest b)
  obtain st a t where s: "s = (st, a, t)" by (cases s) auto
  show ?case
  proof (cases "map_of reverse1 (a, t)")
    case None
    with 2 s show ?thesis by simp
  next
    case (Some files)
    with "2.prems" s show ?thesis by auto
  qed
qed

lemma match_file_exact:
  assumes "find (\<lambda>s. map_of r (snd s) \<noteq> None) ss = Some (strategy2, key2)"
      and "map_of r key2 = Some (f # other)"
  shows "match_file r (filename2, ss) = Inr (Matched (filename2, ExactMatch, strategy2, f))"
  by (simp add: match_file_def scan_strategies_exact[OF assms])

text \<open>
  C2. When the key of an interpretation of a candidate file is a key of the reverse index of
  the reference collection, \<open>cross_match\<close> records an exact match for the first such
  interpretation in the order of the interpretations, naming the first file that the
  construction of the index stored under the key; the file is not among the unique songs and
  has no other match detail, so no fuzzy one either.
\<close>

theorem exact_match_first:
  assumes "reverse1 = build_reverse index1 []"
      and "(filename2, strategies2) \<in> set index2" and "distinct (map fst index2)"
      and "find (\<lambda>s. map_of reverse1 (snd s) \<noteq> None) strategies2 = Some (strategy2, key2)"
  shows "\<exists>unique_songs match_details f other.
           cross_match index2 reverse1 ([], []) = Inr (unique_songs, match_details) \<and>
           files_with_key index1 key2 = f # other \<and>
           (filename2, ExactMatch, strategy2, f) \<in> set match_details \<and>
           filename2 \<notin> set unique_songs \<and>
           (\<forall>d\<in>set match_details. fst d = filename2 \<longrightarrow> d = (filename2, ExactMatch, strategy2, f))"
proof -
  have n: "nonempty_buckets reverse1"
    unfolding assms(1) by (rule nonempty_buckets_build_reverse) (simp add: nonempty_buckets_def)
  from cross_match_returns[OF n]
  obtain u d where c: "cross_match index2 reverse1 ([], []) = Inr (u, d)" by blast
  have "P x" if "find P xs = Some x" for P :: "interp \<Rightarrow> bool" and xs x
    using that by (auto simp: find_Some_iff)
  from this[OF assms(4)] have "map_of reverse1 key2 \<noteq> None"
    by simp
  then obtain files where files: "map_of reverse1 key2 = Some files" by auto
  then have fw: "files = files_with_key index1 key2"
    unfolding assms(1) by (rule map_of_build_reverse)
  from files have "(key2, files) \<in> set reverse1"
    by (rule map_of_SomeD)
  with n have "files \<noteq> []"
    by (auto simp: nonempty_buckets_iff)
  then obtain f other where fo: "files = f # other" by (cases files) auto
  from match_file_exact[OF assms(4) files[unfolded fo]]
  have m: "match_file reverse1 (filename2, strategies2)
             = Inr (Matched (filename2, ExactMatch, strategy2, f))" .
  from cross_match_member(1)[OF c assms(3) assms(2) m] c fw fo show ?thesis
    by (intro exI[of _ u] exI[of _ d] exI[of _ f] exI[of _ other]) simp
qed
theorem exact_match_first_witness:
  "\<exists>unique_songs match_details.
      cross_match example_index2 (build_reverse example_index1 []) ([], [])
        = Inr (unique_songs, match_details) \<and>
      files_with_key example_index1 (ustr ''adele'', ustr ''hello'')
        = [ustr ''Adele - Hello.flac'', ustr ''hello.flac''] \<and>
      (ustr ''Hello_Adele (Remix).mp3'', ExactMatch, ustr ''regex_title-artist'',
         ustr ''Adele - Hello.flac'') \<in> set match_details \<and>
      ustr ''Hello_Adele (Remix).mp3'' \<notin> set unique_songs"
proof -
  let ?ss = "[(ustr ''filename_'', ustr ''hello'', ustr ''adele''),
              (ustr ''regex_title-artist'', ustr ''adele'', ustr ''hello'')]"
  have h2: "(ustr ''Hello_Adele (Remix).mp3'', ?ss) \<in> set example_index2"
    by (simp add: example_index2_def)
  have h3: "distinct (map fst example_index2)"
    by (simp add: example_index2_def ustr_def)
  have h4: "find (\<lambda>s. map_of (build_reverse example_index1 []) (snd s) \<noteq> None) ?ss
              = Some (ustr ''regex_title-artist'', (ustr ''adele'', ustr ''hello''))"
    by (simp add: example_reverse1_built example_reverse1_def ustr_def)
  have fw: "files_with_key example_index1 (ustr ''adele'', ustr ''hello'')
              = [ustr ''Adele - Hello.flac'', ustr ''hello.flac'']"
    by (simp add: files_with_key_def example_index1_def ustr_def)
  from exact_match_first[OF refl h2 h3 h4] fw show ?thesis
    by auto
qed

lemma round_half_even_nonneg: "0 \<le> y \<Longrightarrow> 0 \<le> round_half_even y"
  by (auto simp: round_half_even_def Let_def)

lemma float_round_nonneg: "0 \<le> float_round x"
proof (cases "x \<le> 0")
  case True
  then show ?thesis by (simp add: float_round_def)
next
  case False
  define q :: rat where "q = 2 powi (max (binade x - 52) (- 1074))"
  have q: "0 < q" by (simp add: q_def)
  with False have "0 \<le> x / q" by simp
  then have "0 \<le> round_half_even (x / q)" by (rule round_half_even_nonneg)
  with q False show ?thesis
    by (simp add: float_round_def Let_def q_def[symmetric])
qed

lemma accept_nonneg: "0 \<le> accept"
  by (simp add: accept_def float_round_nonneg)

lemma improves_refl: "improves b b"
  by (simp add: improves_def)

lemma improves_trans: "improves b b' \<Longrightarrow> improves b' b'' \<Longrightarrow> improves b b''"
  by (auto simp: improves_def)

lemma scan_keys_spec:
  "snd (scan_keys keys artist2 title2 b) = Max (insert (snd b) (set (key_overalls keys (artist2, title2))))
   \<and> improves b (scan_keys keys artist2 title2 b)"
proof (induction keys arbitrary: b)
  case Nil
  then show ?case by (simp add: key_overalls_def improves_refl)
next
  case (Cons key1 keys)
  obtain artist1 title1 where k: "key1 = (artist1, title1)" by (cases key1) auto
  let ?vals = "set (key_overalls keys (artist2, title2))"
  show ?case
  proof (cases "gate < calculate_similarity artist1 artist2")
    case False
    with Cons.IH[of b] k show ?thesis by (simp add: key_overalls_def)
  next
    case True
    let ?o = "overall key1 (artist2, title2)"
    have o: "?o = float_div (float_add (calculate_similarity artist1 artist2)
                    (calculate_similarity title1 title2)) 2"
      by (simp add: overall_def k)
    have ko: "key_overalls (key1 # keys) (artist2, title2) = ?o # key_overalls keys (artist2, title2)"
      using True by (simp add: key_overalls_def k)
    have fin: "finite ?vals" by simp
    have set_ko: "set (key_overalls (key1 # keys) (artist2, title2)) = insert ?o ?vals"
      by (simp add: ko)
    show ?thesis
    proof (cases "snd b < ?o")
      case True2: True
      let ?b' = "(Some (artist1, title1, ?o), ?o)"
      have step: "scan_keys (key1 # keys) artist2 title2 b = scan_keys keys artist2 title2 ?b'"
        using True True2 by (simp add: k overall_def Let_def)
      have imp: "improves b ?b'"
        using True2 by (simp add: improves_def)
      have "?o \<le> Max (insert ?o ?vals)"
        using fin by (intro Max_ge) auto
      with True2 have "snd b \<le> Max (insert ?o ?vals)" by linarith
      moreover have "Max (insert (snd b) (insert ?o ?vals)) = max (snd b) (Max (insert ?o ?vals))"
        using fin by (intro Max_insert) auto
      ultimately have m: "Max (insert ?o ?vals) = Max (insert (snd b) (insert ?o ?vals))"
        by (simp add: max.absorb2)
      from Cons.IH[of ?b'] have ih1: "snd (scan_keys keys artist2 title2 ?b') = Max (insert ?o ?vals)"
        and ih2: "improves ?b' (scan_keys keys artist2 title2 ?b')" by simp_all
      have ih3: "improves b (scan_keys keys artist2 title2 ?b')"
        using imp ih2 by (rule improves_trans)
      show ?thesis
      proof (rule conjI)
        show "snd (scan_keys (key1 # keys) artist2 title2 b)
              = Max (insert (snd b) (set (key_overalls (key1 # keys) (artist2, title2))))"
          unfolding step set_ko ih1 by (rule m)
        show "improves b (scan_keys (key1 # keys) artist2 title2 b)"
          unfolding step by (rule ih3)
      qed
    next
      case False2: False
      have step: "scan_keys (key1 # keys) artist2 title2 b = scan_keys keys artist2 title2 b"
        using True False2 by (simp add: k overall_def Let_def)
      have "snd b \<le> Max (insert (snd b) ?vals)"
        using fin by (intro Max_ge) auto
      with False2 have "?o \<le> Max (insert (snd b) ?vals)" by linarith
      moreover have "Max (insert ?o (insert (snd b) ?vals)) = max ?o (Max (insert (snd b) ?vals))"
        using fin by (intro Max_insert) auto
      moreover have "insert ?o (insert (snd b) ?vals) = insert (snd b) (insert ?o ?vals)"
        by (rule insert_commute)
      ultimately have m: "Max (insert (snd b) ?vals) = Max (insert (snd b) (insert ?o ?vals))"
        by (simp add: max.absorb2)
      from Cons.IH[of b] have ih1: "snd (scan_keys keys artist2 title2 b) = Max (insert (snd b) ?vals)"
        and ih2: "improves b (scan_keys keys artist2 title2 b)" by simp_all
      show ?thesis
      proof (rule conjI)
        show "snd (scan_keys (key1 # keys) artist2 title2 b)
              = Max (insert (snd b) (set (key_overalls (key1 # keys) (artist2, title2))))"
          unfolding step set_ko ih1 by (rule m)
        show "improves b (scan_keys (key1 # keys) artist2 title2 b)"
          unfolding step by (rule ih2)
      qed
    qed
  qed
qed

lemma gated_overalls_Cons:
  "gated_overalls r (s # ss) = key_overalls (map fst r) (snd s) @ gated_overalls r ss"
  by (simp add: gated_overalls_def key_overalls_def)

lemma Max_insert_Max_Un:
  fixes A B :: "rat set"
  assumes "finite A" "finite B"
  shows "Max (insert (Max (insert x A)) B) = Max (insert x (A \<union> B))"
proof (cases "B = {}")
  case True
  then show ?thesis by simp
next
  case False
  have "Max (insert x A \<union> B) = max (Max (insert x A)) (Max B)"
    using False assms by (intro Max_Un) auto
  moreover have "Max (insert (Max (insert x A)) B) = max (Max (insert x A)) (Max B)"
    using False assms by (intro Max_insert) auto
  ultimately show ?thesis by simp
qed

lemma scan_strategies_spec:
  assumes "\<forall>s\<in>set ss. map_of r (snd s) = None"
  shows "\<exists>b'. scan_strategies r f ss b = Inr (Completed b') \<and>
               snd b' = Max (insert (snd b) (set (gated_overalls r ss))) \<and> improves b b'"
  using assms
proof (induction ss arbitrary: b)
  case Nil
  then show ?case by (simp add: gated_overalls_def improves_refl)
next
  case (Cons s rest)
  obtain st a t where s: "s = (st, a, t)" by (cases s) auto
  from Cons.prems s have none: "map_of r (a, t) = None" by simp
  let ?b1 = "scan_keys (map fst r) a t b"
  from scan_keys_spec[of "map fst r" a t b]
  have b1: "snd ?b1 = Max (insert (snd b) (set (key_overalls (map fst r) (a, t))))"
    and i1: "improves b ?b1" by simp_all
  from Cons.prems have "\<forall>s\<in>set rest. map_of r (snd s) = None" by simp
  from Cons.IH[OF this, of ?b1]
  obtain b' where b': "scan_strategies r f rest ?b1 = Inr (Completed b')"
    "snd b' = Max (insert (snd ?b1) (set (gated_overalls r rest)))" "improves ?b1 b'"
    by blast
  have step: "scan_strategies r f (s # rest) b = Inr (Completed b')"
    using none b'(1) by (simp add: s)
  have "Max (insert (snd ?b1) (set (gated_overalls r rest)))
        = Max (insert (snd b) (set (key_overalls (map fst r) (a, t)) \<union> set (gated_overalls r rest)))"
    unfolding b1 by (rule Max_insert_Max_Un) simp_all
  also have "\<dots> = Max (insert (snd b) (set (gated_overalls r (s # rest))))"
    by (simp add: gated_overalls_Cons s)
  finally have "snd b' = Max (insert (snd b) (set (gated_overalls r (s # rest))))"
    using b'(2) by simp
  moreover have "improves b b'"
    using i1 b'(3) by (rule improves_trans)
  ultimately show ?case using step by blast
qed

lemma example_gated:
  "gated_overalls example_reverse1 [(ustr ''filename - '', ustr ''abcdefghij'', ustr ''abcdefgxyz'')]
     = [accept]"
  by code_simp

lemma example_gated3:
  "gated_overalls example_reverse1 [(ustr ''filename - '', ustr ''abcdefghij'', ustr ''abcdefghxy'')]
     = [8106479329266893 / 9007199254740992]"
  by code_simp

lemma example_gated4:
  "gated_overalls example_reverse1 [(ustr ''filename - '', ustr ''abcdefghxy'', ustr ''abcdefghij'')]
     = []"
  by code_simp

lemma example_sim4:
  "calculate_similarity (ustr ''abcdefghij'') (ustr ''abcdefghxy'') = gate"
  by code_simp

lemma match_file_fuzzy:
  assumes "\<forall>s\<in>set ss. map_of r (snd s) = None"
  shows "match_file r (f, ss) =
           (if gated_overalls r ss \<noteq> [] \<and> accept < Max (set (gated_overalls r ss))
            then Inr (Matched (detail_of r (f, ss))) else Inr Unique)"
    and "gated_overalls r ss \<noteq> [] \<and> accept < Max (set (gated_overalls r ss)) \<Longrightarrow>
           \<exists>i2 i1. detail_of r (f, ss) = (f, FuzzyMatch (Max (set (gated_overalls r ss))), i2, i1)"
proof -
  let ?G = "set (gated_overalls r ss)"
  from scan_strategies_spec[OF assms, of f "(None, 0)"]
  obtain b' where b': "scan_strategies r f ss (None, 0) = Inr (Completed b')"
    "snd b' = Max (insert 0 ?G)" "improves (None, 0) b'"
    by auto
  obtain bm bs where b: "b' = (bm, bs)" by (cases b') auto
  have iff: "accept < bs \<longleftrightarrow> gated_overalls r ss \<noteq> [] \<and> accept < Max ?G"
  proof (cases "gated_overalls r ss = []")
    case True
    with b'(2) b accept_nonneg show ?thesis by simp
  next
    case False
    then have "Max (insert 0 ?G) = max 0 (Max ?G)" by (intro Max_insert) auto
    with b'(2) b accept_nonneg False show ?thesis by auto
  qed
  have val: "bs = Max ?G" if "accept < bs"
  proof -
    from that iff have ne: "gated_overalls r ss \<noteq> []" and gt: "accept < Max ?G" by auto
    then have "Max (insert 0 ?G) = max 0 (Max ?G)" by (intro Max_insert) auto
    with b'(2) b gt accept_nonneg show ?thesis by auto
  qed
  have some: "\<exists>a t. bm = Some (a, t, bs)" if "accept < bs"
  proof -
    from that accept_nonneg have "0 < bs" by simp
    with b'(3) b show ?thesis by (auto simp: improves_def)
  qed
  have nonempty: "ss \<noteq> []" if "accept < bs"
    using that iff by (auto simp: gated_overalls_def)
  show 1: "match_file r (f, ss) =
           (if gated_overalls r ss \<noteq> [] \<and> accept < Max (set (gated_overalls r ss))
            then Inr (Matched (detail_of r (f, ss))) else Inr Unique)"
  proof (cases "accept < bs")
    case True
    from some[OF True] obtain a t where bm: "bm = Some (a, t, bs)" by blast
    from nonempty[OF True] obtain s rest where "rev ss = s # rest" by (cases "rev ss") auto
    then have "\<exists>d. match_file r (f, ss) = Inr (Matched d)"
      using b' b bm True by (cases s) (simp add: match_file_def)
    then have "match_file r (f, ss) = Inr (Matched (detail_of r (f, ss)))"
      by (auto simp: detail_of_def)
    with True iff show ?thesis by simp
  next
    case False
    then have "match_file r (f, ss) = Inr Unique"
      using b' b by (simp add: match_file_def split: option.splits)
    with False iff show ?thesis by simp
  qed
  show "\<exists>i2 i1. detail_of r (f, ss) = (f, FuzzyMatch (Max (set (gated_overalls r ss))), i2, i1)"
    if "gated_overalls r ss \<noteq> [] \<and> accept < Max (set (gated_overalls r ss))"
  proof -
    from that iff have True: "accept < bs" by simp
    from some[OF True] obtain a t where bm: "bm = Some (a, t, bs)" by blast
    from nonempty[OF True] obtain s rest where "rev ss = s # rest" by (cases "rev ss") auto
    then have "\<exists>i2 i1. match_file r (f, ss) = Inr (Matched (f, FuzzyMatch bs, i2, i1))"
      using b' b bm True by (cases s) (simp add: match_file_def)
    with val[OF True] show ?thesis
      by (auto simp: detail_of_def)
  qed
qed

text \<open>
  C1. For a candidate file none of whose interpretations has a key of the reference reverse
  index, \<open>cross_match\<close> records a match, and then a fuzzy one with the best overall
  similarity, exactly when the greatest overall similarity among the pairs of an interpretation
  and a reference key whose artist similarity is strictly above the gate \<^verbatim>\<open>0.8\<close> is strictly
  above \<^verbatim>\<open>0.85\<close>; otherwise, so also when that greatest value equals \<^verbatim>\<open>0.85\<close> or when no
  pair passes the gate, the file is among the unique songs. The similarities are the values
  that the program computes in floating point.
\<close>

theorem fuzzy_match_threshold:
  assumes "nonempty_buckets reverse1" and "distinct (map fst index2)"
      and "(filename2, strategies2) \<in> set index2"
      and "\<forall>s\<in>set strategies2. map_of reverse1 (snd s) = None"
  shows "\<exists>unique_songs match_details.
           cross_match index2 reverse1 ([], []) = Inr (unique_songs, match_details) \<and>
           ((\<exists>d\<in>set match_details. fst d = filename2) \<longleftrightarrow>
              gated_overalls reverse1 strategies2 \<noteq> [] \<and>
              accept < Max (set (gated_overalls reverse1 strategies2))) \<and>
           (\<forall>d\<in>set match_details. fst d = filename2 \<longrightarrow>
              (\<exists>i2 i1. d = (filename2,
                 FuzzyMatch (Max (set (gated_overalls reverse1 strategies2))), i2, i1))) \<and>
           (filename2 \<in> set unique_songs \<longleftrightarrow>
              \<not> (gated_overalls reverse1 strategies2 \<noteq> [] \<and>
                 accept < Max (set (gated_overalls reverse1 strategies2))))"
proof -
  define e where "e = (filename2, strategies2)"
  define fz where "fz \<longleftrightarrow> gated_overalls reverse1 strategies2 \<noteq> [] \<and>
              accept < Max (set (gated_overalls reverse1 strategies2))"
  define M where "M = Max (set (gated_overalls reverse1 strategies2))"
  from cross_match_returns[OF assms(1)]
  obtain u d where c: "cross_match index2 reverse1 ([], []) = Inr (u, d)" by blast
  have fe: "fst e = filename2" by (simp add: e_def)
  have ein: "e \<in> set index2" using assms(3) by (simp add: e_def)
  have mf1: "match_file reverse1 e = (if fz then Inr (Matched (detail_of reverse1 e)) else Inr Unique)"
    unfolding e_def fz_def by (rule match_file_fuzzy(1)[OF assms(4)])
  have mf2: "fz \<Longrightarrow> \<exists>i2 i1. detail_of reverse1 e = (filename2, FuzzyMatch M, i2, i1)"
    unfolding e_def fz_def M_def by (rule match_file_fuzzy(2)[OF assms(4)])
  have "((\<exists>x\<in>set d. fst x = filename2) \<longleftrightarrow> fz) \<and>
        (\<forall>x\<in>set d. fst x = filename2 \<longrightarrow> (\<exists>i2 i1. x = (filename2, FuzzyMatch M, i2, i1))) \<and>
        (filename2 \<in> set u \<longleftrightarrow> \<not> fz)"
  proof (cases fz)
    case True
    with mf1 have m: "match_file reverse1 e = Inr (Matched (detail_of reverse1 e))" by simp
    from mf2[OF True] obtain i2 i1 where
      dt: "detail_of reverse1 e = (filename2, FuzzyMatch M, i2, i1)" by blast
    from cross_match_member(1)[OF c assms(2) ein m]
    have 1: "detail_of reverse1 e \<in> set d" and 2: "filename2 \<notin> set u"
      and 3: "\<forall>x\<in>set d. fst x = filename2 \<longrightarrow> x = detail_of reverse1 e"
      by (simp_all add: fe)
    from 1 dt have "\<exists>x\<in>set d. fst x = filename2" by (intro bexI[of _ "detail_of reverse1 e"]) simp_all
    moreover from 3 dt have "\<forall>x\<in>set d. fst x = filename2 \<longrightarrow>
        (\<exists>i2 i1. x = (filename2, FuzzyMatch M, i2, i1))" by blast
    ultimately show ?thesis using True 2 by blast
  next
    case False
    with mf1 have m: "match_file reverse1 e = Inr Unique" by simp
    from cross_match_member(2)[OF c assms(2) ein m]
    have 1: "filename2 \<in> set u" and 2: "\<forall>x\<in>set d. fst x \<noteq> filename2"
      by (simp_all add: fe)
    from 1 2 False show ?thesis by blast
  qed
  with c show ?thesis unfolding fz_def M_def by blast
qed
theorem fuzzy_match_threshold_witness:
  "gated_overalls example_reverse1
     [(ustr ''filename - '', ustr ''abcdefghij'', ustr ''abcdefgxyz'')] = [accept] \<and>
   (\<exists>unique_songs match_details.
      cross_match example_index2 example_reverse1 ([], []) = Inr (unique_songs, match_details) \<and>
      (\<forall>d\<in>set match_details. fst d \<noteq> ustr ''abcdefghij - abcdefgxyz.mp3'') \<and>
      ustr ''abcdefghij - abcdefgxyz.mp3'' \<in> set unique_songs)"
proof -
  let ?ss = "[(ustr ''filename - '', ustr ''abcdefghij'', ustr ''abcdefgxyz'')]"
  have h1: "nonempty_buckets example_reverse1"
    by (simp add: example_reverse1_def nonempty_buckets_def)
  have h2: "distinct (map fst example_index2)"
    by (simp add: example_index2_def ustr_def)
  have h3: "(ustr ''abcdefghij - abcdefgxyz.mp3'', ?ss) \<in> set example_index2"
    by (simp add: example_index2_def)
  have h4: "\<forall>s\<in>set ?ss. map_of example_reverse1 (snd s) = None"
    by (simp add: example_reverse1_def ustr_def)
  from fuzzy_match_threshold[OF h1 h2 h3 h4] example_gated show ?thesis
    by auto
qed

end
